theory Spec2Isabelle
  imports Complex_Main
begin

section \<open>Data model of the copilot page (frontend/src/app/copilot/page.tsx)\<close>

text \<open>
  The page is a React component: its state is a set of \<open>useState\<close> cells and its
  operations are event handlers that replace those cells. A handler is modelled as a
  function from the state at the render it runs in to the state after all of its queued
  updates have been applied, in the order the source issues them. Values the source reads
  from the environment (the clock, the random generator, the network) are parameters.

  Field names follow the TypeScript interfaces. Where two interfaces share a field name
  the later one carries a prefix: \<open>conv_\<close> for \<open>Conversation\<close>, \<open>ref_\<close>
  for \<open>RetrievalSource\<close>, \<open>resp_\<close> for \<open>ChatResponse\<close>, \<open>req_\<close> for the
  request body; \<open>locale\<close> is written \<open>locale_tag\<close>.
\<close>

datatype Role = User | Assistant | System

text \<open>\<open>Record<string, unknown>\<close>: a JSON value; a JavaScript number is idealised as a real.\<close>

datatype json = JNull | JBool bool | JNum real | JStr string
  | JArr "json list" | JObj "(string \<times> json) list"

record FollowUpAction =
  label :: string
  action :: string
  payload :: "(string \<times> json) list"

record RetrievalSource =
  ref_id :: string
  ref_title :: string
  ref_snippet :: "string option"
  ref_uri :: "string option"
  ref_score :: "real option"
  ref_metadata :: "(string \<times> string) list option"

record ChatMessage =
  role :: Role
  content :: string
  timestamp :: string
  sources :: "string list option"
  followUps :: "FollowUpAction list option"
  references :: "RetrievalSource list option"

record ChatResponse =
  resp_session_id :: string
  reply :: ChatMessage
  resp_sources :: "string list"
  resp_references :: "RetrievalSource list option"
  follow_ups :: "FollowUpAction list"

text \<open>The body of the POST to \<open>/chat/completions\<close> (lines 263-267).\<close>

record ChatRequest =
  req_session_id :: "string option"
  req_messages :: "ChatMessage list"
  req_locale :: string

record Conversation =
  conv_id :: string
  title :: string
  conv_messages :: "ChatMessage list"
  conv_sessionId :: "string option"
  lastUpdated :: string

text \<open>The \<open>useState\<close> cells that the conversation and chat handlers read or write.\<close>

record page_state =
  conversations :: "Conversation list"
  currentConversationId :: "string option"
  messages :: "ChatMessage list"
  sessionId :: "string option"
  input :: string
  locale_tag :: string
  isLoading :: bool
  error :: "string option"
  actionFeedback :: "string option"
  retryCount :: nat

definition maxRetries :: nat where
  "maxRetries = 2"

text \<open>
  \<open>DEFAULT_ASSISTANT_MESSAGE\<close> is built once when the module is loaded; its timestamp is
  the clock at that moment, the parameter \<open>t0\<close>.
\<close>

definition DEFAULT_ASSISTANT_MESSAGE :: "string \<Rightarrow> ChatMessage" where
  "DEFAULT_ASSISTANT_MESSAGE t0 =
     \<lparr>role = Assistant,
      content = ''Hi! I'm EverydayElastic, your ops copilot. Ask me about active incidents, policies, runbooks, or chat history and I'll cite relevant sources.'',
      timestamp = t0, sources = None, followUps = None, references = None\<rparr>"

definition initial_state :: "string \<Rightarrow> page_state" where
  "initial_state t0 =
     \<lparr>conversations = [], currentConversationId = None,
      messages = [DEFAULT_ASSISTANT_MESSAGE t0], sessionId = None, input = [],
      locale_tag = ''en-US'', isLoading = False, error = None, actionFeedback = None,
      retryCount = 0\<rparr>"

section \<open>String helpers of the JavaScript runtime\<close>

text \<open>
  A string is a list of 8-bit characters, read as the code units U+0000 to U+00FF. Of the
  white space and line terminators that \<open>String.prototype.trim\<close> strips, these are
  the ones in that range: tab, line feed, vertical tab, form feed, carriage return, space
  and no-break space (U+00A0). The others (U+1680, U+2000 to U+200A, U+2028, U+2029,
  U+202F, U+205F, U+3000, U+FEFF) lie outside the strings modelled here.
\<close>

definition is_space :: "char \<Rightarrow> bool" where
  "is_space c = (c = CHR '' '' \<or> c = CHR 0x09 \<or> c = CHR 0x0A \<or> c = CHR 0x0B
                 \<or> c = CHR 0x0C \<or> c = CHR 0x0D \<or> c = CHR 0xA0)"

text \<open>\<open>String.prototype.trim\<close>: white space is dropped at both ends.\<close>

definition trim :: "string \<Rightarrow> string" where
  "trim s = rev (dropWhile is_space (rev (dropWhile is_space s)))"

fun starts_with :: "string \<Rightarrow> string \<Rightarrow> bool" where
  "starts_with s [] = True"
| "starts_with [] (p # ps) = False"
| "starts_with (c # cs) (p # ps) = (c = p \<and> starts_with cs ps)"

text \<open>\<open>String.prototype.includes\<close>: the needle occurs somewhere in the string.\<close>

fun includes_str :: "string \<Rightarrow> string \<Rightarrow> bool" where
  "includes_str [] needle = (needle = [])"
| "includes_str (c # cs) needle = (starts_with (c # cs) needle \<or> includes_str cs needle)"

definition digit_char :: "nat \<Rightarrow> char" where
  "digit_char d =
     (if d = 0 then CHR ''0'' else if d = 1 then CHR ''1'' else if d = 2 then CHR ''2''
      else if d = 3 then CHR ''3'' else if d = 4 then CHR ''4'' else if d = 5 then CHR ''5''
      else if d = 6 then CHR ''6'' else if d = 7 then CHR ''7'' else if d = 8 then CHR ''8''
      else CHR ''9'')"

text \<open>A non-negative integer inside a template literal: its decimal digits.\<close>

fun show_nat :: "nat \<Rightarrow> string" where
  "show_nat n = (if n < 10 then [digit_char n]
                 else show_nat (n div 10) @ [digit_char (n mod 10)])"

declare show_nat.simps [simp del]

text \<open>\<open>Array.prototype.findIndex\<close>: the first index satisfying the predicate, or \<open>-1\<close>.\<close>

fun findIndex :: "('a \<Rightarrow> bool) \<Rightarrow> 'a list \<Rightarrow> int" where
  "findIndex P [] = - 1"
| "findIndex P (x # xs) =
     (if P x then 0 else (let r = findIndex P xs in if r < 0 then - 1 else r + 1))"

text \<open>\<open>Array.prototype.findLast\<close>: the last element satisfying the predicate.\<close>

definition findLast :: "('a \<Rightarrow> bool) \<Rightarrow> 'a list \<Rightarrow> 'a option" where
  "findLast P xs = List.find P (rev xs)"

section \<open>Conversation management\<close>

text \<open>
  Lines 89-109, the effect that loads the saved conversations. \<open>saved\<close> is the parsed
  content of the storage key: \<open>None\<close> when the key is absent or empty, or when parsing or
  filtering throws (the \<open>catch\<close> only logs). The filter keeps the element at \<open>index\<close>
  when \<open>index\<close> is the first index whose element has the same id.
\<close>

definition uniqueConvs :: "Conversation list \<Rightarrow> Conversation list" where
  "uniqueConvs parsed =
     map snd (filter (\<lambda>(index, conv).
                  int index = findIndex (\<lambda>c. conv_id c = conv_id conv) parsed)
                (enumerate 0 parsed))"

definition loadConversations :: "Conversation list option \<Rightarrow> page_state \<Rightarrow> page_state" where
  "loadConversations saved s =
     (case saved of
        None \<Rightarrow> s
      | Some parsed \<Rightarrow>
          (case uniqueConvs parsed of
             [] \<Rightarrow> s\<lparr>conversations := []\<rparr>
           | latest # rest \<Rightarrow>
               s\<lparr>conversations := latest # rest,
                 currentConversationId := Some (conv_id latest),
                 messages := conv_messages latest,
                 sessionId := conv_sessionId latest\<rparr>))"

text \<open>
  Lines 135-148. \<open>now_ms\<close> is \<open>Date.now()\<close>, \<open>rnd\<close> is
  \<open>Math.random().toString(36).substr(2, 9)\<close> and \<open>now_iso\<close> is
  \<open>new Date().toISOString()\<close>.
\<close>

definition new_conv_id :: "nat \<Rightarrow> string \<Rightarrow> string" where
  "new_conv_id now_ms rnd = ''conv-'' @ show_nat now_ms @ ''-'' @ rnd"

definition newConv :: "string \<Rightarrow> nat \<Rightarrow> string \<Rightarrow> string \<Rightarrow> Conversation" where
  "newConv t0 now_ms rnd now_iso =
     \<lparr>conv_id = new_conv_id now_ms rnd, title = ''New Chat'',
      conv_messages = [DEFAULT_ASSISTANT_MESSAGE t0], conv_sessionId = None,
      lastUpdated = now_iso\<rparr>"

definition startNewChat :: "string \<Rightarrow> nat \<Rightarrow> string \<Rightarrow> string \<Rightarrow> page_state \<Rightarrow> page_state" where
  "startNewChat t0 now_ms rnd now_iso s =
     s\<lparr>conversations := newConv t0 now_ms rnd now_iso # conversations s,
       currentConversationId := Some (conv_id (newConv t0 now_ms rnd now_iso)),
       messages := [DEFAULT_ASSISTANT_MESSAGE t0],
       sessionId := None, error := None, actionFeedback := None\<rparr>"

text \<open>
  What the page holds after mounting: the load effect (lines 89-109) and the effect of lines
  228-233 both run in the first render, where \<open>conversations\<close> is still empty, so
  \<open>startNewChat\<close> runs after the load whatever was loaded.
\<close>

definition mount :: "string \<Rightarrow> Conversation list option \<Rightarrow> nat \<Rightarrow> string \<Rightarrow> string \<Rightarrow> page_state" where
  "mount t0 saved now_ms rnd now_iso =
     startNewChat t0 now_ms rnd now_iso (loadConversations saved (initial_state t0))"

text \<open>Lines 150-159.\<close>

definition switchConversation :: "string \<Rightarrow> page_state \<Rightarrow> page_state" where
  "switchConversation convId s =
     (case List.find (\<lambda>c. conv_id c = convId) (conversations s) of
        None \<Rightarrow> s
      | Some conv \<Rightarrow>
          s\<lparr>currentConversationId := Some (conv_id conv), messages := conv_messages conv,
            sessionId := conv_sessionId conv, error := None, actionFeedback := None\<rparr>)"

text \<open>
  Lines 161-176. The updater returns \<open>filtered\<close>; when it calls \<open>startNewChat\<close>, the
  update that \<open>startNewChat\<close> queues on the list is applied to that result.
\<close>

definition deleteConversation ::
    "string \<Rightarrow> nat \<Rightarrow> string \<Rightarrow> string \<Rightarrow> string \<Rightarrow> page_state \<Rightarrow> page_state" where
  "deleteConversation t0 now_ms rnd now_iso convId s =
     (let filtered = filter (\<lambda>c. conv_id c \<noteq> convId) (conversations s) in
      if currentConversationId s = Some convId then
        (case filtered of
           next # rest \<Rightarrow>
             s\<lparr>conversations := filtered, currentConversationId := Some (conv_id next),
               messages := conv_messages next, sessionId := conv_sessionId next\<rparr>
         | [] \<Rightarrow> startNewChat t0 now_ms rnd now_iso (s\<lparr>conversations := filtered\<rparr>))
      else s\<lparr>conversations := filtered\<rparr>)"

text \<open>
  Lines 213-225. \<open>if (currentConversationId)\<close> is false for \<open>null\<close> and for the empty
  string.
\<close>

definition truthy_id :: "string option \<Rightarrow> bool" where
  "truthy_id c = (case c of None \<Rightarrow> False | Some k \<Rightarrow> k \<noteq> [])"

definition clearConversation :: "string \<Rightarrow> page_state \<Rightarrow> page_state" where
  "clearConversation t0 s =
     s\<lparr>conversations :=
         (if truthy_id (currentConversationId s) then
            map (\<lambda>conv. if Some (conv_id conv) = currentConversationId s
                         then conv\<lparr>conv_messages := [DEFAULT_ASSISTANT_MESSAGE t0],
                                   conv_sessionId := None\<rparr>
                         else conv) (conversations s)
          else conversations s),
       messages := [DEFAULT_ASSISTANT_MESSAGE t0],
       sessionId := None, error := None, actionFeedback := None\<rparr>"

text \<open>
  Lines 119-133, the effect that writes the open messages and session id back into the
  current conversation of the list.
\<close>

definition derived_title :: "ChatMessage list \<Rightarrow> string" where
  "derived_title ms =
     (case List.find (\<lambda>m. role m = User) ms of
        None \<Rightarrow> ''New Chat''
      | Some m \<Rightarrow> (if take 50 (content m) = [] then ''New Chat'' else take 50 (content m)))"

definition updateCurrentConversation :: "string \<Rightarrow> page_state \<Rightarrow> page_state" where
  "updateCurrentConversation now_iso s =
     (if truthy_id (currentConversationId s) \<and> length (messages s) > 1 then
        s\<lparr>conversations :=
            map (\<lambda>conv. if Some (conv_id conv) = currentConversationId s
                         then conv\<lparr>conv_messages := messages s,
                                   conv_sessionId := sessionId s,
                                   lastUpdated := now_iso,
                                   title := (if title conv = ''New Chat''
                                             then derived_title (messages s)
                                             else title conv)\<rparr>
                         else conv) (conversations s)\<rparr>
      else s)"

section \<open>The chat turn\<close>

text \<open>
  What a \<open>catch\<close> receives: an \<open>Error\<close> with its message, or any other value.
\<close>

datatype thrown = ErrorObj string | NonError

text \<open>
  A response as \<open>handleSubmit\<close> reads it: \<open>ok\<close>, \<open>status\<close>, and the results of
  \<open>text()\<close> and \<open>json()\<close>, each of which may reject.
\<close>

record http_response =
  ok :: bool
  status :: nat
  text_body :: "thrown + string"
  json_body :: "thrown + ChatResponse"

datatype fetch_result = Rejected thrown | Resolved http_response

text \<open>
  The network as the page meets it: when the \<open>fetch\<close> promise would settle by itself
  (\<open>None\<close>: never), how it would settle, and the message of the error with which the
  browser rejects an aborted \<open>fetch\<close>.
\<close>

record network =
  arrival_ms :: "nat option"
  outcome :: fetch_result
  abort_message :: string

definition fetch_timeout_ms :: nat where
  "fetch_timeout_ms = 30000"

text \<open>
  Lines 257-271, how the \<open>fetch\<close> promise settles: the timer aborts the call after
  \<open>fetch_timeout_ms\<close>; a promise that settles earlier is not aborted, and line 271 then
  clears the timer, before the body of the response is read.
\<close>

definition fetch_settle :: "network \<Rightarrow> fetch_result" where
  "fetch_settle net =
     (case arrival_ms net of
        None \<Rightarrow> Rejected (ErrorObj (abort_message net))
      | Some t \<Rightarrow> (if t < fetch_timeout_ms then outcome net
                   else Rejected (ErrorObj (abort_message net))))"

text \<open>Lines 273-278: the value of \<open>data\<close>, or what the \<open>try\<close> block throws.\<close>

definition await_response :: "fetch_result \<Rightarrow> thrown + ChatResponse" where
  "await_response r =
     (case r of
        Rejected e \<Rightarrow> Inl e
      | Resolved resp \<Rightarrow>
          (if \<not> ok resp then
             (case text_body resp of
                Inl e \<Rightarrow> Inl e
              | Inr errorText \<Rightarrow>
                  Inl (ErrorObj (''Request failed with status '' @ show_nat (status resp)
                                 @ '': '' @ errorText)))
           else json_body resp))"

definition userMessage :: "string \<Rightarrow> string \<Rightarrow> ChatMessage" where
  "userMessage text now_iso =
     \<lparr>role = User, content = text, timestamp = now_iso, sources = None, followUps = None,
      references = None\<rparr>"

text \<open>
  Lines 235-269, \<open>handleSubmit\<close> up to the \<open>fetch\<close>: \<open>None\<close> is the early return, otherwise
  the request body and the state with the queued updates applied.
\<close>

definition handleSubmit_start ::
    "bool \<Rightarrow> string \<Rightarrow> page_state \<Rightarrow> (ChatRequest \<times> page_state) option" where
  "handleSubmit_start retry now_iso s =
     (if trim (input s) = [] \<and> \<not> retry then None
      else
        (let newUserMessage = userMessage (trim (input s)) now_iso;
             optimisticMessages = (if retry then messages s else messages s @ [newUserMessage]);
             s1 = (if retry then s else s\<lparr>messages := optimisticMessages, input := []\<rparr>)
         in Some (\<lparr>req_session_id = sessionId s, req_messages = optimisticMessages,
                    req_locale = locale_tag s\<rparr>,
                  s1\<lparr>isLoading := True, error := None,
                     retryCount := (if retry then retryCount s + 1 else 0)\<rparr>)))"

definition assistantMessage :: "ChatResponse \<Rightarrow> ChatMessage" where
  "assistantMessage data =
     (reply data)\<lparr>sources := Some (resp_sources data),
                  followUps := Some (follow_ups data),
                  references := resp_references data\<rparr>"

definition error_text :: "thrown \<Rightarrow> string" where
  "error_text err =
     (let errorMessage = (case err of ErrorObj m \<Rightarrow> m | NonError \<Rightarrow> ''Unknown error occurred'')
      in if includes_str errorMessage ''aborted'' then
           ''Request timed out. The server took too long to respond. Please try again.''
         else if includes_str errorMessage ''Failed to fetch'' then
           ''Cannot reach the backend server. Please check your connection and ensure the API is running.''
         else ''Error: '' @ errorMessage)"

text \<open>
  Lines 271-304, \<open>handleSubmit\<close> from the settled \<open>fetch\<close> on. The functional updates
  \<open>setMessages((prev) => ...)\<close> read the state at that moment, the argument \<open>s\<close>.
\<close>

definition handleSubmit_finish :: "bool \<Rightarrow> fetch_result \<Rightarrow> page_state \<Rightarrow> page_state" where
  "handleSubmit_finish retry r s =
     (case await_response r of
        Inr data \<Rightarrow>
          s\<lparr>sessionId := Some (resp_session_id data),
            messages := (if retry then butlast (messages s) @ [assistantMessage data]
                         else messages s @ [assistantMessage data]),
            retryCount := 0, isLoading := False\<rparr>
      | Inl err \<Rightarrow> s\<lparr>error := Some (error_text err), isLoading := False\<rparr>)"

text \<open>
  One whole call of \<open>handleSubmit\<close> that gets past its \<open>await\<close>s, with nothing
  else happening while the request is in flight: the requests it sent, and the state
  when it returns.
\<close>

definition handleSubmit ::
    "bool \<Rightarrow> string \<Rightarrow> network \<Rightarrow> page_state \<Rightarrow> ChatRequest list \<times> page_state" where
  "handleSubmit retry now_iso net s =
     (case handleSubmit_start retry now_iso s of
        None \<Rightarrow> ([], s)
      | Some (req, s1) \<Rightarrow> ([req], handleSubmit_finish retry (fetch_settle net) s1))"

text \<open>
  Lines 307-314. \<open>handleSubmit\<close> runs with the \<open>input\<close> of the current render, and
  \<open>setInput\<close> is applied with its other updates.
\<close>

definition retryLastRequest_start ::
    "string \<Rightarrow> page_state \<Rightarrow> (ChatRequest \<times> page_state) option" where
  "retryLastRequest_start now_iso s =
     (case findLast (\<lambda>m. role m = User) (messages s) of
        None \<Rightarrow> None
      | Some lastUserMessage \<Rightarrow>
          (if retryCount s < maxRetries then
             (case handleSubmit_start True now_iso s of
                None \<Rightarrow> None
              | Some (req, s1) \<Rightarrow> Some (req, s1\<lparr>input := content lastUserMessage\<rparr>))
           else None))"

definition retryLastRequest ::
    "string \<Rightarrow> network \<Rightarrow> page_state \<Rightarrow> ChatRequest list \<times> page_state" where
  "retryLastRequest now_iso net s =
     (case retryLastRequest_start now_iso s of
        None \<Rightarrow> ([], s)
      | Some (req, s1) \<Rightarrow> ([req], handleSubmit_finish True (fetch_settle net) s1))"

text \<open>
  The failures the claim about hard failures names: the \<open>fetch\<close> promise rejects
  (transport error or abort), or the response arrives with \<open>ok\<close> false.
\<close>

definition hard_failure :: "fetch_result \<Rightarrow> bool" where
  "hard_failure r = (case r of Rejected e \<Rightarrow> True | Resolved resp \<Rightarrow> \<not> ok resp)"

section \<open>When a call gets past its awaits\<close>

text \<open>
  \<open>handleSubmit\<close> waits twice: for the \<open>fetch\<close> promise (line 260), under the
  timer, and then for the body of the response, \<open>response.text()\<close> (line 274) or
  \<open>response.json()\<close> (line 278), after line 271 has cleared the timer. \<open>body_ms\<close> is
  the time the body takes once the response is there, \<open>None\<close> when it never comes.
  \<open>returns_at\<close> is the time after the call at which \<open>handleSubmit\<close> is past both
  waits, \<open>None\<close> when it never is.
\<close>

definition returns_at :: "network \<Rightarrow> nat option \<Rightarrow> nat option" where
  "returns_at net body_ms =
     (case arrival_ms net of
        None \<Rightarrow> Some fetch_timeout_ms
      | Some t \<Rightarrow>
          (if t < fetch_timeout_ms then
             (case outcome net of
                Rejected e \<Rightarrow> Some t
              | Resolved resp \<Rightarrow> (case body_ms of None \<Rightarrow> None | Some b \<Rightarrow> Some (t + b)))
           else Some fetch_timeout_ms))"

text \<open>
  The page \<open>elapsed\<close> milliseconds after \<open>handleSubmit\<close> was called, with nothing else
  happening meanwhile: until the call is past its waits the page is as the synchronous
  part of the handler left it.
\<close>

definition handleSubmit_after ::
    "nat \<Rightarrow> bool \<Rightarrow> string \<Rightarrow> network \<Rightarrow> nat option \<Rightarrow> page_state \<Rightarrow> page_state" where
  "handleSubmit_after elapsed retry now_iso net body_ms s =
     (case handleSubmit_start retry now_iso s of
        None \<Rightarrow> s
      | Some (req, s1) \<Rightarrow>
          (case returns_at net body_ms of
             None \<Rightarrow> s1
           | Some t \<Rightarrow> (if t \<le> elapsed then handleSubmit_finish retry (fetch_settle net) s1
                        else s1)))"

section \<open>Sequences of actions on one page\<close>

text \<open>
  What can happen on the page, one entry per callback of the source. \<open>handleSubmit\<close> is
  suspended at its \<open>await\<close>s, and meanwhile the sidebar (new chat, the conversation rows,
  delete) and Clear stay enabled, so a call is two events: \<open>Send\<close> (a new message) or
  \<open>SendRetry\<close> (the Retry button) runs the handler up to the \<open>fetch\<close>, and
  \<open>Arrive k\<close> resumes the suspended call number \<open>k\<close> once it is past its waits. A call
  that never gets past them is a \<open>Send\<close> with no \<open>Arrive\<close>. \<open>Submit\<close> and
  \<open>Retry\<close> are a call sent and resumed with nothing in between. \<open>Sync\<close> is the
  effect of lines 119-133.

  The page comes with the calls in flight: for each, the \<open>retry\<close> argument it was
  called with, which is all that the rest of the handler reads from its own call.
  The log keeps the request bodies sent and what the \<open>try\<close> block gave or threw when a
  call was resumed, and a mark where the conversation was reset.
\<close>

datatype event =
    Submit string string network
  | Retry string network
  | NewChat nat string string
  | Clear
  | Send string string
  | SendRetry string
  | Arrive nat network
  | Switch string
  | Delete nat string string string
  | Sync string

datatype log_entry =
    Exchange ChatRequest "thrown + ChatResponse"
  | Reset
  | Sent ChatRequest
  | Got "thrown + ChatResponse"

record world =
  page :: page_state
  in_flight :: "bool list"

fun step :: "string \<Rightarrow> event \<Rightarrow> world \<Rightarrow> log_entry list \<times> world" where
  "step t0 (Submit text now_iso net) w =
     (case handleSubmit False now_iso net ((page w)\<lparr>input := text\<rparr>) of
        (reqs, s1) \<Rightarrow>
          (map (\<lambda>req. Exchange req (await_response (fetch_settle net))) reqs,
           w\<lparr>page := s1\<rparr>))"
| "step t0 (Retry now_iso net) w =
     (case retryLastRequest now_iso net (page w) of
        (reqs, s1) \<Rightarrow>
          (map (\<lambda>req. Exchange req (await_response (fetch_settle net))) reqs,
           w\<lparr>page := s1\<rparr>))"
| "step t0 (NewChat now_ms rnd now_iso) w =
     ([Reset], w\<lparr>page := startNewChat t0 now_ms rnd now_iso (page w)\<rparr>)"
| "step t0 Clear w = ([Reset], w\<lparr>page := clearConversation t0 (page w)\<rparr>)"
| "step t0 (Send text now_iso) w =
     (case handleSubmit_start False now_iso ((page w)\<lparr>input := text\<rparr>) of
        None \<Rightarrow> ([], w\<lparr>page := (page w)\<lparr>input := text\<rparr>\<rparr>)
      | Some (req, s1) \<Rightarrow> ([Sent req], \<lparr>page = s1, in_flight = in_flight w @ [False]\<rparr>))"
| "step t0 (SendRetry now_iso) w =
     (case retryLastRequest_start now_iso (page w) of
        None \<Rightarrow> ([], w)
      | Some (req, s1) \<Rightarrow> ([Sent req], \<lparr>page = s1, in_flight = in_flight w @ [True]\<rparr>))"
| "step t0 (Arrive k net) w =
     (if k < length (in_flight w) then
        ([Got (await_response (fetch_settle net))],
         \<lparr>page = handleSubmit_finish (in_flight w ! k) (fetch_settle net) (page w),
          in_flight = take k (in_flight w) @ drop (Suc k) (in_flight w)\<rparr>)
      else ([], w))"
| "step t0 (Switch convId) w = ([], w\<lparr>page := switchConversation convId (page w)\<rparr>)"
| "step t0 (Delete now_ms rnd now_iso convId) w =
     ([], w\<lparr>page := deleteConversation t0 now_ms rnd now_iso convId (page w)\<rparr>)"
| "step t0 (Sync now_iso) w = ([], w\<lparr>page := updateCurrentConversation now_iso (page w)\<rparr>)"

fun play :: "string \<Rightarrow> event list \<Rightarrow> world \<Rightarrow> log_entry list \<times> world" where
  "play t0 [] w = ([], w)"
| "play t0 (e # es) w =
     (case step t0 e w of
        (log1, w1) \<Rightarrow> (case play t0 es w1 of (log2, w2) \<Rightarrow> (log1 @ log2, w2)))"

text \<open>A sequence of events from a page with no call in flight: the log and the page.\<close>

definition run :: "string \<Rightarrow> event list \<Rightarrow> page_state \<Rightarrow> log_entry list \<times> page_state" where
  "run t0 es s =
     (case play t0 es \<lparr>page = s, in_flight = []\<rparr> of (entries, w) \<Rightarrow> (entries, page w))"

section \<open>First occurrences\<close>

text \<open>
  The list that keeps, of the conversations whose id is not in \<open>seen\<close>, the first one of
  each id: what "keeps only the first occurrence of each id" says, to compare with
  \<open>uniqueConvs\<close>.
\<close>

fun first_occurrences :: "string list \<Rightarrow> Conversation list \<Rightarrow> Conversation list" where
  "first_occurrences seen [] = []"
| "first_occurrences seen (c # cs) =
     (if conv_id c \<in> set seen then first_occurrences seen cs
      else c # first_occurrences (conv_id c # seen) cs)"

section \<open>The answer generator\<close>

text \<open>
  Modelled from the spec: the answer generator of the backend (section 4.5), whose code is
  not part of the sources at hand; only its caller, the page, is. An EvidenceSet is the
  ordered list of the documents included, the document at position \<open>i\<close> (from 1) being
  tagged with the citation marker \<open>i\<close> (section 4.4: markers are assigned in inclusion
  order, 1..k). A text is a sequence of plain spans and citation markers. \<open>generate\<close>
  receives what the text generation capability returned (\<open>None\<close>: transport or timeout
  error) and validates it: a marker that is not present in the EvidenceSet is stripped.
  The GroundedAnswer lists the markers actually referenced and the source identifiers
  corresponding to them.
\<close>

datatype segment = Plain string | Cite nat

text \<open>
  Modelled from the spec: GroundedAnswer (section 3), the generated text, the citation
  markers actually referenced and the source identifiers corresponding to them; the
  backend type is not part of the sources at hand.
\<close>

record GroundedAnswer =
  answer_text :: "segment list"
  citations :: "nat list"
  answer_sources :: "string list"

text \<open>Modelled from the spec: the two hard failures of the taxonomy of section 7.\<close>

datatype pipeline_failure = RetrievalUnavailable | GenerationUnavailable

text \<open>
  Modelled from the spec: a marker is present in an EvidenceSet of \<open>k\<close> documents when
  it is one of 1..k (section 4.4); the assembler's code is not part of the sources at hand.
\<close>

definition has_marker :: "string list \<Rightarrow> nat \<Rightarrow> bool" where
  "has_marker evidence m = (1 \<le> m \<and> m \<le> length evidence)"

text \<open>Modelled from the spec: the citation markers appearing in a text, in their order.\<close>

fun markers_in :: "segment list \<Rightarrow> nat list" where
  "markers_in [] = []"
| "markers_in (Plain t # segs) = markers_in segs"
| "markers_in (Cite m # segs) = m # markers_in segs"

text \<open>
  Modelled from the spec: the validation step of section 4.5, missing from the sources at
  hand; a marker not present in the EvidenceSet is stripped, everything else is kept.
\<close>

definition strip_dangling :: "string list \<Rightarrow> segment list \<Rightarrow> segment list" where
  "strip_dangling evidence segs =
     filter (\<lambda>seg. case seg of Plain t \<Rightarrow> True | Cite m \<Rightarrow> has_marker evidence m) segs"

text \<open>
  Modelled from the spec: \<open>generate\<close> of section 4.5, missing from the sources at hand;
  it fails with \<open>GenerationUnavailable\<close> on a transport or timeout error and otherwise
  returns the validated text with its citations and their sources.
\<close>

definition generate :: "string list \<Rightarrow> segment list option \<Rightarrow> pipeline_failure + GroundedAnswer" where
  "generate evidence returned =
     (case returned of
        None \<Rightarrow> Inl GenerationUnavailable
      | Some raw \<Rightarrow>
          (let txt = strip_dangling evidence raw; cited = remdups (markers_in txt)
           in Inr \<lparr>answer_text = txt, citations = cited,
                   answer_sources = map (\<lambda>m. evidence ! (m - 1)) cited\<rparr>))"

section \<open>Concrete values\<close>

definition ex_t0 :: string where
  "ex_t0 = ''2025-10-20T09:00:00.000Z''"

definition ex_state :: page_state where
  "ex_state = (initial_state ex_t0)\<lparr>input := ''status of sev-1?''\<rparr>"

definition ex_now :: string where
  "ex_now = ''2025-10-20T09:00:05.000Z''"

definition ex_request :: ChatRequest where
  "ex_request =
     \<lparr>req_session_id = None,
      req_messages = [DEFAULT_ASSISTANT_MESSAGE ex_t0, userMessage ''status of sev-1?'' ex_now],
      req_locale = ''en-US''\<rparr>"

definition ex_pending :: page_state where
  "ex_pending =
     ex_state\<lparr>messages := [DEFAULT_ASSISTANT_MESSAGE ex_t0,
                           userMessage ''status of sev-1?'' ex_now],
              input := [], isLoading := True, error := None, retryCount := 0\<rparr>"

definition ex_reply :: ChatResponse where
  "ex_reply =
     \<lparr>resp_session_id = ''sess-1'',
      reply = \<lparr>role = Assistant, content = ''Two incidents are open [1].'',
               timestamp = ''2025-10-20T09:00:07.000Z'', sources = None, followUps = None,
               references = None\<rparr>,
      resp_sources = [''doc-7''],
      resp_references = Some [\<lparr>ref_id = ''doc-7'', ref_title = ''Incident log'',
                               ref_snippet = None, ref_uri = None, ref_score = None,
                               ref_metadata = None\<rparr>],
      follow_ups = [\<lparr>label = ''Post to Slack'', action = ''slack_webhook'',
                      payload = [(''channel'', JStr ''#sev-1-war-room'')]\<rparr>]\<rparr>"

definition ex_net_ok :: network where
  "ex_net_ok =
     \<lparr>arrival_ms = Some 1200,
      outcome = Resolved \<lparr>ok = True, status = 200, text_body = Inr ''{}'',
                          json_body = Inr ex_reply\<rparr>,
      abort_message = ''signal is aborted without reason''\<rparr>"


definition ex_net_slow :: network where
  "ex_net_slow = ex_net_ok\<lparr>arrival_ms := Some 45000\<rparr>"

definition ex_net_cancelled :: network where
  "ex_net_cancelled = ex_net_slow\<lparr>abort_message := ''The operation was canceled.''\<rparr>"

definition ex_conv :: "string \<Rightarrow> string \<Rightarrow> Conversation" where
  "ex_conv k t =
     \<lparr>conv_id = k, title = t, conv_messages = [DEFAULT_ASSISTANT_MESSAGE ex_t0],
      conv_sessionId = None, lastUpdated = ex_t0\<rparr>"

section \<open>Facts about one call of handleSubmit\<close>

lemma handleSubmit_start_Some:
  assumes "handleSubmit_start retry now_iso s = Some (req, s1)"
  shows "req = \<lparr>req_session_id = sessionId s,
                req_messages = (if retry then messages s
                                else messages s @ [userMessage (trim (input s)) now_iso]),
                req_locale = locale_tag s\<rparr>"
    and "s1 = (if retry then s\<lparr>isLoading := True, error := None, retryCount := retryCount s + 1\<rparr>
               else s\<lparr>messages := messages s @ [userMessage (trim (input s)) now_iso],
                      input := [], isLoading := True, error := None, retryCount := 0\<rparr>)"
    and "retry \<or> trim (input s) \<noteq> []"
  using assms by (auto simp: handleSubmit_start_def Let_def split: if_splits)

lemma finish_failure:
  "await_response r = Inl err \<Longrightarrow>
   handleSubmit_finish retry r s = s\<lparr>error := Some (error_text err), isLoading := False\<rparr>"
  by (simp add: handleSubmit_finish_def)

lemma finish_success:
  "await_response r = Inr data \<Longrightarrow>
   handleSubmit_finish retry r s =
     s\<lparr>sessionId := Some (resp_session_id data),
       messages := (if retry then butlast (messages s) else messages s) @ [assistantMessage data],
       retryCount := 0, isLoading := False\<rparr>"
  by (simp add: handleSubmit_finish_def)

lemma error_text_nonempty: "error_text err \<noteq> []"
  by (simp add: error_text_def Let_def)


lemma await_response_Inr_iff:
  "await_response r = Inr data \<longleftrightarrow>
     (\<exists>resp. r = Resolved resp \<and> ok resp \<and> json_body resp = Inr data)"
  by (cases r) (auto simp: await_response_def split: sum.splits)

lemma trim_ex_input: "trim ''status of sev-1?'' = ''status of sev-1?''"
  by (simp add: trim_def is_space_def)

lemma ex_state_start:
  "handleSubmit_start False ex_now ex_state =
     Some (ex_request,
           ex_pending)"
  by (simp add: handleSubmit_start_def Let_def ex_state_def initial_state_def trim_ex_input
      ex_request_def ex_pending_def ex_now_def)



lemma ex_net_ok_data: "await_response (fetch_settle ex_net_ok) = Inr ex_reply"
  by (simp add: await_response_def fetch_settle_def ex_net_ok_def fetch_timeout_ms_def)

section \<open>The request and the response of a chat turn\<close>

text \<open>
  C4. Whenever \<open>handleSubmit\<close> sends a request, its \<open>messages\<close> field is the whole
  conversation as the page holds it at that moment: for a new message the previous turns
  followed by the new user turn, for a retry the turns already there. The request is
  determined by the history, the session id, the locale and the typed text alone.
\<close>

theorem request_carries_whole_history:
  assumes "handleSubmit_start retry now_iso s = Some (req, s1)"
  shows "req_messages req = messages s1
       \<and> req_messages req = (if retry then messages s
                              else messages s @ [userMessage (trim (input s)) now_iso])
       \<and> req_session_id req = sessionId s \<and> req_locale req = locale_tag s
       \<and> (\<forall>s'. messages s' = messages s \<and> sessionId s' = sessionId s
                \<and> locale_tag s' = locale_tag s \<and> input s' = input s
              \<longrightarrow> map_option fst (handleSubmit_start retry now_iso s') = Some req)"
proof -
  note st = handleSubmit_start_Some [OF assms]
  have a: "req_messages req = messages s1"
    using st(1,2) by (cases retry) simp_all
  have b: "req_messages req = (if retry then messages s
                               else messages s @ [userMessage (trim (input s)) now_iso])"
    using st(1) by simp
  have c: "req_session_id req = sessionId s \<and> req_locale req = locale_tag s"
    using st(1) by simp
  have d: "map_option fst (handleSubmit_start retry now_iso s') = Some req"
    if "messages s' = messages s \<and> sessionId s' = sessionId s
        \<and> locale_tag s' = locale_tag s \<and> input s' = input s" for s'
    using that st(1,3) by (auto simp: handleSubmit_start_def Let_def)
  show ?thesis using a b c d by blast
qed

theorem request_carries_whole_history_witness:
  "handleSubmit_start False ex_now ex_state =
     Some (ex_request,
           ex_pending)
   \<and> messages ex_state @ [userMessage (trim (input ex_state)) ex_now]
       = [DEFAULT_ASSISTANT_MESSAGE ex_t0,
          userMessage ''status of sev-1?'' ex_now]"
  using request_carries_whole_history [OF ex_state_start] ex_state_start
  by (simp add: ex_request_def)

text \<open>
  C2. The request has the fields session id (optional), messages and locale. A call
  succeeds exactly when the response is \<open>ok\<close> and its body parses to a ChatResponse, with
  the fields session id, reply, sources, references and follow-ups. The turn then added is
  the reply with its sources, follow-ups and references replaced by those of the response;
  it goes to the end of the messages the page holds when the response arrives (after
  dropping the last one, for a retry).
\<close>

theorem answer_shapes_and_appended_turn:
  assumes "handleSubmit_start retry now_iso s = Some (req, s1)"
    and "await_response r = Inr data"
  shows "req = \<lparr>req_session_id = sessionId s, req_messages = messages s1,
                req_locale = locale_tag s\<rparr>
       \<and> (\<exists>resp. r = Resolved resp \<and> ok resp \<and> json_body resp = Inr data)
       \<and> messages (handleSubmit_finish retry r s2) =
            (if retry then butlast (messages s2) else messages s2) @ [assistantMessage data]
       \<and> assistantMessage data =
            \<lparr>role = role (reply data), content = content (reply data),
             timestamp = timestamp (reply data), sources = Some (resp_sources data),
             followUps = Some (follow_ups data), references = resp_references data\<rparr>
       \<and> sessionId (handleSubmit_finish retry r s2) = Some (resp_session_id data)"
proof -
  note st = handleSubmit_start_Some [OF assms(1)]
  have a: "req = \<lparr>req_session_id = sessionId s, req_messages = messages s1,
                  req_locale = locale_tag s\<rparr>"
    using st(1,2) by (cases retry) simp_all
  have b: "\<exists>resp. r = Resolved resp \<and> ok resp \<and> json_body resp = Inr data"
    using assms(2) by (simp add: await_response_Inr_iff)
  have c: "messages (handleSubmit_finish retry r s2) =
            (if retry then butlast (messages s2) else messages s2) @ [assistantMessage data]"
    by (simp add: finish_success [OF assms(2)])
  have d: "assistantMessage data =
            \<lparr>role = role (reply data), content = content (reply data),
             timestamp = timestamp (reply data), sources = Some (resp_sources data),
             followUps = Some (follow_ups data), references = resp_references data\<rparr>"
    by (simp add: assistantMessage_def)
  have e: "sessionId (handleSubmit_finish retry r s2) = Some (resp_session_id data)"
    by (simp add: finish_success [OF assms(2)])
  show ?thesis using a b c d e by blast
qed

theorem answer_shapes_and_appended_turn_witness:
  "await_response (fetch_settle ex_net_ok) = Inr ex_reply
   \<and> messages (handleSubmit_finish False (fetch_settle ex_net_ok) ex_state) =
       [DEFAULT_ASSISTANT_MESSAGE ex_t0,
        \<lparr>role = Assistant, content = ''Two incidents are open [1].'',
         timestamp = ''2025-10-20T09:00:07.000Z'', sources = Some [''doc-7''],
         followUps = Some (follow_ups ex_reply), references = resp_references ex_reply\<rparr>]"
  using answer_shapes_and_appended_turn [OF ex_state_start ex_net_ok_data, of ex_state]
    ex_net_ok_data
  by (simp add: ex_state_def initial_state_def ex_reply_def)

section \<open>Failures of a chat turn\<close>




lemma ex_returns_slow_body: "returns_at ex_net_ok (Some 45000) = Some 46200"
  by (simp add: returns_at_def ex_net_ok_def fetch_timeout_ms_def)

text \<open>
  C7, as amended. The call is made under a deadline of 30000 milliseconds on the
  \<open>fetch\<close>: when the \<open>fetch\<close> promise has not settled by then (or never does), the call
  is aborted at that moment and rejected with the browser's abort error, and
  \<open>handleSubmit\<close> ends like after any other rejected \<open>fetch\<close>, the error text apart:
  messages and session id stay as they were, loading ends and a non-empty error text is
  shown, which is the time-out message when the abort message contains "aborted". A
  \<open>fetch\<close> that settles before 30000 milliseconds is not aborted, and from then on
  nothing bounds the call: it is past its waits when the body has come, however long that
  takes, and never if the body never comes.
\<close>

theorem deadline_bounds_the_fetch_only:
  "fetch_timeout_ms = 30000
   \<and> ((case arrival_ms net of None \<Rightarrow> True | Some t \<Rightarrow> 30000 \<le> t) \<longrightarrow>
        fetch_settle net = Rejected (ErrorObj (abort_message net))
        \<and> hard_failure (fetch_settle net)
        \<and> returns_at net body_ms = Some 30000
        \<and> handleSubmit_finish retry (fetch_settle net) s1 =
             s1\<lparr>error := Some (error_text (ErrorObj (abort_message net))), isLoading := False\<rparr>
        \<and> (\<forall>e. handleSubmit_finish retry (fetch_settle net) s1 =
               (handleSubmit_finish retry (Rejected e) s1)
                 \<lparr>error := Some (error_text (ErrorObj (abort_message net)))\<rparr>)
        \<and> messages (handleSubmit_finish retry (fetch_settle net) s1) = messages s1
        \<and> sessionId (handleSubmit_finish retry (fetch_settle net) s1) = sessionId s1
        \<and> error_text (ErrorObj (abort_message net)) \<noteq> []
        \<and> (includes_str (abort_message net) ''aborted'' \<longrightarrow>
              error_text (ErrorObj (abort_message net)) =
                ''Request timed out. The server took too long to respond. Please try again.'')
        \<and> (\<forall>now_iso s req elapsed. handleSubmit_start retry now_iso s = Some (req, s1) \<longrightarrow>
              handleSubmit_after elapsed retry now_iso net body_ms s =
                (if 30000 \<le> elapsed
                 then s1\<lparr>error := Some (error_text (ErrorObj (abort_message net))),
                         isLoading := False\<rparr>
                 else s1)))
   \<and> (\<forall>t. arrival_ms net = Some t \<and> t < 30000 \<longrightarrow>
          fetch_settle net = outcome net
          \<and> returns_at net body_ms =
              (case outcome net of
                 Rejected e \<Rightarrow> Some t
               | Resolved resp \<Rightarrow> (case body_ms of None \<Rightarrow> None | Some b \<Rightarrow> Some (t + b))))"
proof -
  have a: "fetch_timeout_ms = 30000"
    by (simp add: fetch_timeout_ms_def)
  have late: "fetch_settle net = Rejected (ErrorObj (abort_message net))
        \<and> hard_failure (fetch_settle net)
        \<and> returns_at net body_ms = Some 30000
        \<and> handleSubmit_finish retry (fetch_settle net) s1 =
             s1\<lparr>error := Some (error_text (ErrorObj (abort_message net))), isLoading := False\<rparr>
        \<and> (\<forall>e. handleSubmit_finish retry (fetch_settle net) s1 =
               (handleSubmit_finish retry (Rejected e) s1)
                 \<lparr>error := Some (error_text (ErrorObj (abort_message net)))\<rparr>)
        \<and> messages (handleSubmit_finish retry (fetch_settle net) s1) = messages s1
        \<and> sessionId (handleSubmit_finish retry (fetch_settle net) s1) = sessionId s1
        \<and> error_text (ErrorObj (abort_message net)) \<noteq> []
        \<and> (includes_str (abort_message net) ''aborted'' \<longrightarrow>
              error_text (ErrorObj (abort_message net)) =
                ''Request timed out. The server took too long to respond. Please try again.'')
        \<and> (\<forall>now_iso s req elapsed. handleSubmit_start retry now_iso s = Some (req, s1) \<longrightarrow>
              handleSubmit_after elapsed retry now_iso net body_ms s =
                (if 30000 \<le> elapsed
                 then s1\<lparr>error := Some (error_text (ErrorObj (abort_message net))),
                         isLoading := False\<rparr>
                 else s1))"
    if h: "case arrival_ms net of None \<Rightarrow> True | Some t \<Rightarrow> 30000 \<le> t"
  proof -
    have b: "fetch_settle net = Rejected (ErrorObj (abort_message net))"
      using h by (simp add: fetch_settle_def fetch_timeout_ms_def split: option.splits)
    have c: "await_response (fetch_settle net) = Inl (ErrorObj (abort_message net))"
      by (simp add: b await_response_def)
    have d: "handleSubmit_finish retry (fetch_settle net) s1 =
             s1\<lparr>error := Some (error_text (ErrorObj (abort_message net))), isLoading := False\<rparr>"
      by (rule finish_failure [OF c])
    have e: "handleSubmit_finish retry (Rejected e) s1 =
             s1\<lparr>error := Some (error_text e), isLoading := False\<rparr>" for e
      by (simp add: handleSubmit_finish_def await_response_def)
    have f: "hard_failure (fetch_settle net)"
      by (simp add: b hard_failure_def)
    have g: "returns_at net body_ms = Some 30000"
      using h by (simp add: returns_at_def fetch_timeout_ms_def split: option.splits)
    have i: "includes_str (abort_message net) ''aborted'' \<longrightarrow>
              error_text (ErrorObj (abort_message net)) =
                ''Request timed out. The server took too long to respond. Please try again.''"
      by (simp add: error_text_def)
    have j: "handleSubmit_after elapsed retry now_iso net body_ms s =
                (if 30000 \<le> elapsed
                 then s1\<lparr>error := Some (error_text (ErrorObj (abort_message net))),
                         isLoading := False\<rparr>
                 else s1)"
      if "handleSubmit_start retry now_iso s = Some (req, s1)" for now_iso s req elapsed
      by (simp add: handleSubmit_after_def that g d)
    have k: "(\<forall>e. handleSubmit_finish retry (fetch_settle net) s1 =
               (handleSubmit_finish retry (Rejected e) s1)
                 \<lparr>error := Some (error_text (ErrorObj (abort_message net)))\<rparr>)"
      unfolding e d by simp
    have l: "messages (handleSubmit_finish retry (fetch_settle net) s1) = messages s1
        \<and> sessionId (handleSubmit_finish retry (fetch_settle net) s1) = sessionId s1"
      unfolding d by simp
    show ?thesis
      using b f g d k l error_text_nonempty [of "ErrorObj (abort_message net)"] i j by blast
  qed
  have early: "fetch_settle net = outcome net
          \<and> returns_at net body_ms =
              (case outcome net of
                 Rejected e \<Rightarrow> Some t
               | Resolved resp \<Rightarrow> (case body_ms of None \<Rightarrow> None | Some b \<Rightarrow> Some (t + b)))"
    if "arrival_ms net = Some t \<and> t < 30000" for t
    using that by (simp add: fetch_settle_def returns_at_def fetch_timeout_ms_def)
  show ?thesis
    using a late early by blast
qed

theorem deadline_bounds_the_fetch_only_witness:
  "arrival_ms ex_net_slow = Some 45000
   \<and> includes_str (abort_message ex_net_slow) ''aborted''
   \<and> handleSubmit_after 30000 False ex_now ex_net_slow None ex_state =
       ex_pending\<lparr>error := Some ''Request timed out. The server took too long to respond. Please try again.'',
                  isLoading := False\<rparr>
   \<and> arrival_ms ex_net_ok = Some 1200
   \<and> returns_at ex_net_ok (Some 45000) = Some 46200"
proof -
  have h1: "case arrival_ms ex_net_slow of None \<Rightarrow> True | Some t \<Rightarrow> 30000 \<le> t"
    by (simp add: ex_net_slow_def)
  have h2: "includes_str (abort_message ex_net_slow) ''aborted''"
    by (simp add: ex_net_slow_def ex_net_ok_def)
  have h3: "arrival_ms ex_net_slow = Some 45000"
    by (simp add: ex_net_slow_def)
  have h4: "arrival_ms ex_net_ok = Some 1200 \<and> (1200::nat) < 30000"
    by (simp add: ex_net_ok_def)
  note late = deadline_bounds_the_fetch_only [of ex_net_slow None False ex_pending]
  from late h1 h2 have tx: "error_text (ErrorObj (abort_message ex_net_slow)) =
      ''Request timed out. The server took too long to respond. Please try again.''"
    by blast
  from late h1 ex_state_start
  have "handleSubmit_after 30000 False ex_now ex_net_slow None ex_state =
       (if (30000::nat) \<le> 30000
        then ex_pending\<lparr>error := Some (error_text (ErrorObj (abort_message ex_net_slow))),
                        isLoading := False\<rparr>
        else ex_pending)"
    by blast
  then have a: "handleSubmit_after 30000 False ex_now ex_net_slow None ex_state =
       ex_pending\<lparr>error := Some ''Request timed out. The server took too long to respond. Please try again.'',
                  isLoading := False\<rparr>"
    by (simp add: tx)
  from deadline_bounds_the_fetch_only [of ex_net_ok "Some 45000" False ex_pending] h4
  have "returns_at ex_net_ok (Some 45000) =
          (case outcome ex_net_ok of
                 Rejected e \<Rightarrow> Some 1200
               | Resolved resp \<Rightarrow> (case Some 45000 of None \<Rightarrow> None | Some b \<Rightarrow> Some (1200 + b)))"
    by blast
  then have b: "returns_at ex_net_ok (Some 45000) = Some 46200"
    by (simp add: ex_net_ok_def)
  show ?thesis
    using h2 h3 h4 a b by blast
qed

text \<open>
  The claim C7 as it was stated fails for a response that arrives in time and whose body
  is slow: with the response there after 1200 milliseconds and its body after another
  45000, the call is still in flight, unaborted, after 40000 milliseconds, and after 46200
  the assistant turn is added and no error is shown. If the body never comes, the call
  never gets past its waits. And where the message of the abort error does not contain
  "aborted", the error shown after an abort is not the time-out message.
\<close>

theorem slow_body_is_not_aborted:
  "handleSubmit_after 40000 False ex_now ex_net_ok (Some 45000) ex_state = ex_pending
   \<and> messages (handleSubmit_after 46200 False ex_now ex_net_ok (Some 45000) ex_state)
     = [DEFAULT_ASSISTANT_MESSAGE ex_t0, userMessage ''status of sev-1?'' ex_now,
        assistantMessage ex_reply]
   \<and> error (handleSubmit_after 46200 False ex_now ex_net_ok (Some 45000) ex_state) = None
   \<and> returns_at ex_net_ok None = None
   \<and> error (handleSubmit_after 30000 False ex_now ex_net_cancelled None ex_state)
     = Some ''Error: The operation was canceled.''"
proof -
  have late: "returns_at ex_net_cancelled None = Some 30000"
    by (simp add: returns_at_def ex_net_cancelled_def ex_net_slow_def fetch_timeout_ms_def)
  have rej: "await_response (fetch_settle ex_net_cancelled)
             = Inl (ErrorObj ''The operation was canceled.'')"
    by (simp add: await_response_def fetch_settle_def ex_net_cancelled_def ex_net_slow_def
        fetch_timeout_ms_def)
  have d: "error (handleSubmit_after 30000 False ex_now ex_net_cancelled None ex_state)
     = Some ''Error: The operation was canceled.''"
    by (simp add: handleSubmit_after_def ex_state_start late finish_failure [OF rej]
        error_text_def)
  have never: "returns_at ex_net_ok None = None"
    by (simp add: returns_at_def ex_net_ok_def fetch_timeout_ms_def)
  have a: "handleSubmit_after 40000 False ex_now ex_net_ok (Some 45000) ex_state = ex_pending"
    by (simp add: handleSubmit_after_def ex_state_start ex_returns_slow_body)
  have b: "handleSubmit_after 46200 False ex_now ex_net_ok (Some 45000) ex_state
           = handleSubmit_finish False (fetch_settle ex_net_ok) ex_pending"
    by (simp add: handleSubmit_after_def ex_state_start ex_returns_slow_body)
  have c: "messages (handleSubmit_finish False (fetch_settle ex_net_ok) ex_pending)
           = [DEFAULT_ASSISTANT_MESSAGE ex_t0, userMessage ''status of sev-1?'' ex_now,
              assistantMessage ex_reply]
         \<and> error (handleSubmit_finish False (fetch_settle ex_net_ok) ex_pending) = None"
    by (simp add: finish_success [OF ex_net_ok_data] ex_pending_def)
  show ?thesis
    using never a c d unfolding b by blast
qed

section \<open>Retrying\<close>









lemma snd_play_Cons:
  "snd (play t0 (e # es) w) = snd (play t0 es (snd (step t0 e w)))"
  by (simp split: prod.splits)


lemma snd_run: "snd (run t0 es s) = page (snd (play t0 es \<lparr>page = s, in_flight = []\<rparr>))"
  by (simp add: run_def split_beta)











section \<open>The session id across requests\<close>

lemma trim_ex_input2: "trim ''and sev-2?'' = ''and sev-2?''"
  by (simp add: trim_def is_space_def)

text \<open>
  C5. The claim fails on the page when a new chat is started while a request is in
  flight. A message is sent from a fresh page, the user presses New chat, which resets the
  stored session id, and then the response to the first conversation's request arrives: the
  rest of \<open>handleSubmit\<close> stores its session id and adds its reply to the new
  conversation. The first request of the new conversation then carries that session id,
  with the other conversation's reply in its history.
\<close>

theorem new_chat_takes_session_id_in_flight:
  "sessionId (snd (run ex_t0 [Send ''status of sev-1?'' ex_now,
                              NewChat 1760950800000 ''k3x9q2m1z'' ex_now]
                     (initial_state ex_t0))) = None
   \<and> currentConversationId (snd (run ex_t0 [Send ''status of sev-1?'' ex_now,
                              NewChat 1760950800000 ''k3x9q2m1z'' ex_now,
                              Arrive 0 ex_net_ok]
                     (initial_state ex_t0))) = Some (new_conv_id 1760950800000 ''k3x9q2m1z'')
   \<and> sessionId (snd (run ex_t0 [Send ''status of sev-1?'' ex_now,
                              NewChat 1760950800000 ''k3x9q2m1z'' ex_now,
                              Arrive 0 ex_net_ok]
                     (initial_state ex_t0))) = Some ''sess-1''
   \<and> fst (run ex_t0 [Send ''status of sev-1?'' ex_now,
                     NewChat 1760950800000 ''k3x9q2m1z'' ex_now,
                     Arrive 0 ex_net_ok,
                     Send ''and sev-2?'' ''2025-10-20T09:02:00.000Z'']
            (initial_state ex_t0))
     = [Sent ex_request, Reset, Got (Inr ex_reply),
        Sent \<lparr>req_session_id = Some ''sess-1'',
              req_messages = [DEFAULT_ASSISTANT_MESSAGE ex_t0, assistantMessage ex_reply,
                              userMessage ''and sev-2?'' ''2025-10-20T09:02:00.000Z''],
              req_locale = ''en-US''\<rparr>]"
  by (simp add: run_def handleSubmit_start_def handleSubmit_finish_def startNewChat_def
      newConv_def Let_def initial_state_def trim_ex_input trim_ex_input2 ex_net_ok_data
      ex_request_def ex_reply_def)

section \<open>Deleting a conversation\<close>

lemma filter_other_ids_length:
  "distinct (map conv_id cs) \<Longrightarrow> k \<in> set (map conv_id cs) \<Longrightarrow>
   length (filter (\<lambda>c. conv_id c \<noteq> k) cs) = length cs - 1"
proof (induction cs)
  case Nil
  then show ?case by simp
next
  case (Cons c cs)
  show ?case
  proof (cases "conv_id c = k")
    case True
    then have "k \<notin> set (map conv_id cs)"
      using Cons.prems(1) by simp
    then have "filter (\<lambda>c. conv_id c \<noteq> k) cs = cs"
      by (induction cs) auto
    then show ?thesis using True by simp
  next
    case False
    then have k: "k \<in> set (map conv_id cs)"
      using Cons.prems(2) by simp
    then have "cs \<noteq> []" by auto
    then have "0 < length cs" by simp
    then show ?thesis
      using Cons.IH Cons.prems(1) k False by simp
  qed
qed

lemma at_most_one_with_id:
  "distinct (map conv_id cs) \<Longrightarrow> length (filter (\<lambda>c. conv_id c = k) cs) \<le> 1"
proof (induction cs)
  case Nil
  then show ?case by simp
next
  case (Cons c cs)
  show ?case
  proof (cases "conv_id c = k")
    case True
    then have "k \<notin> set (map conv_id cs)"
      using Cons.prems by simp
    then have "filter (\<lambda>c. conv_id c = k) cs = []"
      by (induction cs) auto
    then show ?thesis using True by simp
  next
    case False
    then show ?thesis using Cons by simp
  qed
qed

text \<open>
  C9. \<open>deleteConversation\<close> leaves in the list the conversations with another id, in
  their order and unchanged; in a list with pairwise distinct ids that is the list
  without one element. When the deleted conversation is the current one, the first
  remaining conversation becomes current with its messages and session id, or, when none
  remains, a new conversation with the default greeting and no session id is put in the
  list and becomes current. When another conversation is deleted, the current id, the
  open messages and the session id stay as they are.
\<close>

theorem deleteConversation_removes_only_that_one:
  "conversations (deleteConversation t0 now_ms rnd now_iso convId s) =
     (if currentConversationId s = Some convId
         \<and> filter (\<lambda>c. conv_id c \<noteq> convId) (conversations s) = []
      then [newConv t0 now_ms rnd now_iso] else [])
     @ filter (\<lambda>c. conv_id c \<noteq> convId) (conversations s)
   \<and> (distinct (map conv_id (conversations s)) \<and> convId \<in> set (map conv_id (conversations s))
        \<longrightarrow> length (filter (\<lambda>c. conv_id c \<noteq> convId) (conversations s))
            = length (conversations s) - 1)
   \<and> (currentConversationId s = Some convId \<longrightarrow>
        (case filter (\<lambda>c. conv_id c \<noteq> convId) (conversations s) of
           next # rest \<Rightarrow>
             currentConversationId (deleteConversation t0 now_ms rnd now_iso convId s)
               = Some (conv_id next)
             \<and> messages (deleteConversation t0 now_ms rnd now_iso convId s) = conv_messages next
             \<and> sessionId (deleteConversation t0 now_ms rnd now_iso convId s)
               = conv_sessionId next
         | [] \<Rightarrow>
             currentConversationId (deleteConversation t0 now_ms rnd now_iso convId s)
               = Some (conv_id (newConv t0 now_ms rnd now_iso))
             \<and> conv_messages (newConv t0 now_ms rnd now_iso) = [DEFAULT_ASSISTANT_MESSAGE t0]
             \<and> conv_sessionId (newConv t0 now_ms rnd now_iso) = None
             \<and> messages (deleteConversation t0 now_ms rnd now_iso convId s)
               = [DEFAULT_ASSISTANT_MESSAGE t0]
             \<and> sessionId (deleteConversation t0 now_ms rnd now_iso convId s) = None))
   \<and> (currentConversationId s \<noteq> Some convId \<longrightarrow>
        currentConversationId (deleteConversation t0 now_ms rnd now_iso convId s)
          = currentConversationId s
        \<and> messages (deleteConversation t0 now_ms rnd now_iso convId s) = messages s
        \<and> sessionId (deleteConversation t0 now_ms rnd now_iso convId s) = sessionId s)"
proof -
  define filtered where "filtered = filter (\<lambda>c. conv_id c \<noteq> convId) (conversations s)"
  define s' where "s' = deleteConversation t0 now_ms rnd now_iso convId s"
  have a: "conversations s' =
     (if currentConversationId s = Some convId \<and> filtered = []
      then [newConv t0 now_ms rnd now_iso] else []) @ filtered"
    by (simp add: s'_def filtered_def deleteConversation_def startNewChat_def Let_def
        split: list.splits)
  have b: "distinct (map conv_id (conversations s)) \<and> convId \<in> set (map conv_id (conversations s))
        \<longrightarrow> length filtered = length (conversations s) - 1"
    unfolding filtered_def using filter_other_ids_length [of "conversations s" convId] by blast
  have c: "currentConversationId s = Some convId \<longrightarrow>
        (case filtered of
           next # rest \<Rightarrow>
             currentConversationId s' = Some (conv_id next)
             \<and> messages s' = conv_messages next \<and> sessionId s' = conv_sessionId next
         | [] \<Rightarrow>
             currentConversationId s' = Some (conv_id (newConv t0 now_ms rnd now_iso))
             \<and> conv_messages (newConv t0 now_ms rnd now_iso) = [DEFAULT_ASSISTANT_MESSAGE t0]
             \<and> conv_sessionId (newConv t0 now_ms rnd now_iso) = None
             \<and> messages s' = [DEFAULT_ASSISTANT_MESSAGE t0]
             \<and> sessionId s' = None)"
    by (simp add: s'_def filtered_def deleteConversation_def startNewChat_def newConv_def Let_def
        split: list.splits)
  have d: "currentConversationId s \<noteq> Some convId \<longrightarrow>
        currentConversationId s' = currentConversationId s
        \<and> messages s' = messages s \<and> sessionId s' = sessionId s"
    by (simp add: s'_def deleteConversation_def Let_def)
  show ?thesis
    unfolding s'_def [symmetric] filtered_def [symmetric] using a b c d by blast
qed

theorem deleteConversation_removes_only_that_one_witness:
  "conversations (deleteConversation ex_t0 1760950800000 ''k3x9q2m1z'' ex_now ''conv-a''
       ((initial_state ex_t0)
          \<lparr>conversations := [ex_conv ''conv-a'' ''First'', ex_conv ''conv-b'' ''Second''],
           currentConversationId := Some ''conv-a''\<rparr>))
     = [ex_conv ''conv-b'' ''Second'']
   \<and> currentConversationId (deleteConversation ex_t0 1760950800000 ''k3x9q2m1z'' ex_now ''conv-a''
       ((initial_state ex_t0)
          \<lparr>conversations := [ex_conv ''conv-a'' ''First'', ex_conv ''conv-b'' ''Second''],
           currentConversationId := Some ''conv-a''\<rparr>))
     = Some ''conv-b''
   \<and> distinct (map conv_id [ex_conv ''conv-a'' ''First'', ex_conv ''conv-b'' ''Second''])"
  using deleteConversation_removes_only_that_one
    [of ex_t0 1760950800000 "''k3x9q2m1z''" ex_now "''conv-a''"
        "(initial_state ex_t0)
          \<lparr>conversations := [ex_conv ''conv-a'' ''First'', ex_conv ''conv-b'' ''Second''],
           currentConversationId := Some ''conv-a''\<rparr>"]
  by (simp add: ex_conv_def)

section \<open>Distinct conversation ids\<close>

lemma findIndex_at:
  "findIndex P (ys @ c # cs) = int (length ys) \<longleftrightarrow> P c \<and> (\<forall>y\<in>set ys. \<not> P y)"
proof (induction ys)
  case Nil
  show ?case by (simp add: Let_def)
next
  case (Cons y ys)
  define r where "r = findIndex P (ys @ c # cs)"
  show ?case
  proof (cases "P y")
    case True
    then show ?thesis by simp
  next
    case False
    have "findIndex P ((y # ys) @ c # cs) = (if r < 0 then - 1 else r + 1)"
      using False by (simp add: Let_def r_def)
    then have L: "findIndex P ((y # ys) @ c # cs) = int (length (y # ys))
                  \<longleftrightarrow> r = int (length ys)"
      by auto
    have R: "r = int (length ys) \<longleftrightarrow> P c \<and> (\<forall>y\<in>set ys. \<not> P y)"
      unfolding r_def by (rule Cons.IH)
    show ?thesis
      unfolding L R using False by simp
  qed
qed

lemma first_occurrences_seen_set:
  "set seen = set seen' \<Longrightarrow> first_occurrences seen cs = first_occurrences seen' cs"
proof (induction cs arbitrary: seen seen')
  case Nil
  show ?case by simp
next
  case (Cons c cs)
  have "set (conv_id c # seen) = set (conv_id c # seen')"
    using Cons.prems by simp
  then have "first_occurrences (conv_id c # seen) cs = first_occurrences (conv_id c # seen') cs"
    by (rule Cons.IH)
  moreover have "first_occurrences seen cs = first_occurrences seen' cs"
    using Cons.prems by (rule Cons.IH)
  ultimately show ?case
    using Cons.prems by simp
qed

lemma uniqueConvs_from:
  "map snd (filter (\<lambda>(index, conv).
                int index = findIndex (\<lambda>c. conv_id c = conv_id conv) (ys @ xs))
              (enumerate (length ys) xs))
   = first_occurrences (map conv_id ys) xs"
proof (induction xs arbitrary: ys)
  case Nil
  show ?case by simp
next
  case (Cons x xs)
  have "findIndex (\<lambda>c. conv_id c = conv_id x) (ys @ x # xs) = int (length ys)
        \<longleftrightarrow> (\<forall>y\<in>set ys. conv_id y \<noteq> conv_id x)"
    using findIndex_at [of "\<lambda>c. conv_id c = conv_id x" ys x xs] by simp
  moreover have "(\<forall>y\<in>set ys. conv_id y \<noteq> conv_id x) \<longleftrightarrow> conv_id x \<notin> conv_id ` set ys"
  proof
    assume a: "\<forall>y\<in>set ys. conv_id y \<noteq> conv_id x"
    show "conv_id x \<notin> conv_id ` set ys"
    proof
      assume "conv_id x \<in> conv_id ` set ys"
      then obtain y where y: "y \<in> set ys" and eq: "conv_id x = conv_id y"
        by (rule imageE)
      from a y have "conv_id y \<noteq> conv_id x" by (rule bspec)
      with eq show False by simp
    qed
  next
    assume b: "conv_id x \<notin> conv_id ` set ys"
    show "\<forall>y\<in>set ys. conv_id y \<noteq> conv_id x"
    proof
      fix y assume "y \<in> set ys"
      then have "conv_id y \<in> conv_id ` set ys" by (rule imageI)
      with b show "conv_id y \<noteq> conv_id x" by metis
    qed
  qed
  ultimately have here:
    "int (length ys) = findIndex (\<lambda>c. conv_id c = conv_id x) (ys @ x # xs)
     \<longleftrightarrow> conv_id x \<notin> conv_id ` set ys"
    by (simp add: eq_commute)
  have rest: "map snd (filter (\<lambda>(index, conv).
                int index = findIndex (\<lambda>c. conv_id c = conv_id conv) (ys @ x # xs))
              (enumerate (Suc (length ys)) xs))
          = first_occurrences (map conv_id (ys @ [x])) xs"
    using Cons.IH [of "ys @ [x]"] by simp
  show ?case
  proof (cases "conv_id x \<in> set (map conv_id ys)")
    case True
    then have "set (map conv_id (ys @ [x])) = set (map conv_id ys)"
      by auto
    then have "first_occurrences (map conv_id (ys @ [x])) xs
               = first_occurrences (map conv_id ys) xs"
      by (rule first_occurrences_seen_set)
    then show ?thesis
      using True here rest by simp
  next
    case False
    have "set (map conv_id (ys @ [x])) = set (conv_id x # map conv_id ys)"
      by auto
    then have "first_occurrences (map conv_id (ys @ [x])) xs
               = first_occurrences (conv_id x # map conv_id ys) xs"
      by (rule first_occurrences_seen_set)
    then show ?thesis
      using False here rest by simp
  qed
qed

lemma uniqueConvs_first_occurrences: "uniqueConvs parsed = first_occurrences [] parsed"
  using uniqueConvs_from [of "[]" parsed] by (simp add: uniqueConvs_def)

lemma first_occurrences_ids:
  "conv_id ` set (first_occurrences seen cs) = conv_id ` set cs - set seen"
  by (induction cs arbitrary: seen) auto

lemma first_occurrences_distinct: "distinct (map conv_id (first_occurrences seen cs))"
proof (induction cs arbitrary: seen)
  case Nil
  show ?case by simp
next
  case (Cons c cs)
  have "conv_id c \<notin> conv_id ` set (first_occurrences (conv_id c # seen) cs)"
    by (simp add: first_occurrences_ids)
  then show ?case
    using Cons.IH by simp
qed

lemma first_occurrences_find:
  "List.find (\<lambda>c. conv_id c = k) (first_occurrences seen cs) =
     (if k \<in> set seen then None else List.find (\<lambda>c. conv_id c = k) cs)"
proof (induction cs arbitrary: seen)
  case Nil
  show ?case by simp
next
  case (Cons c cs)
  show ?case
    by (cases "conv_id c = k") (auto simp: Cons.IH)
qed

lemma find_distinct_id:
  "distinct (map conv_id cs) \<Longrightarrow> c \<in> set cs \<Longrightarrow>
   List.find (\<lambda>d. conv_id d = conv_id c) cs = Some c"
proof (induction cs)
  case Nil
  then show ?case by simp
next
  case (Cons d cs)
  show ?case
  proof (cases "c = d")
    case True
    then show ?thesis by simp
  next
    case False
    then have c: "c \<in> set cs"
      using Cons.prems(2) by simp
    then have "conv_id c \<in> conv_id ` set cs"
      by (rule imageI)
    then have "conv_id d \<noteq> conv_id c"
      using Cons.prems(1) by auto
    then show ?thesis
      using Cons.IH Cons.prems(1) c by simp
  qed
qed

lemma filter_length_mono:
  "(\<And>x. x \<in> set xs \<Longrightarrow> P x \<Longrightarrow> Q x) \<Longrightarrow> length (filter P xs) \<le> length (filter Q xs)"
  by (induction xs) auto

lemma changed_by_map:
  "length (filter (\<lambda>p. fst p \<noteq> snd p) (zip xs (map g xs))) = length (filter (\<lambda>x. x \<noteq> g x) xs)"
  by (induction xs) auto

lemma update_changes_at_most_one:
  assumes "distinct (map conv_id (conversations s))"
  shows "length (filter (\<lambda>p. fst p \<noteq> snd p)
           (zip (conversations s) (conversations (updateCurrentConversation now_iso s)))) \<le> 1"
proof (cases "truthy_id (currentConversationId s) \<and> length (messages s) > 1")
  case False
  have same: "filter (\<lambda>p. fst p \<noteq> snd p) (zip xs xs) = []" for xs :: "Conversation list"
    by (induction xs) auto
  have "updateCurrentConversation now_iso s = s"
    using False by (auto simp: updateCurrentConversation_def)
  then show ?thesis
    by (simp add: same)
next
  case True
  then obtain k where k: "currentConversationId s = Some k"
    by (cases "currentConversationId s") (auto simp: truthy_id_def)
  define g where "g = (\<lambda>conv :: Conversation. if Some (conv_id conv) = currentConversationId s
                         then conv\<lparr>conv_messages := messages s,
                                   conv_sessionId := sessionId s,
                                   lastUpdated := now_iso,
                                   title := (if title conv = ''New Chat''
                                             then derived_title (messages s)
                                             else title conv)\<rparr>
                         else conv)"
  have upd: "conversations (updateCurrentConversation now_iso s) = map g (conversations s)"
    using True by (simp add: updateCurrentConversation_def g_def)
  have "length (filter (\<lambda>x. x \<noteq> g x) (conversations s))
        \<le> length (filter (\<lambda>c. conv_id c = k) (conversations s))"
    by (rule filter_length_mono) (auto simp: g_def k split: if_splits)
  also have "\<dots> \<le> 1"
    by (rule at_most_one_with_id [OF assms])
  finally show ?thesis
    by (simp add: upd changed_by_map)
qed

lemma delete_removes_at_most_one:
  assumes "distinct (map conv_id cs)"
  shows "length cs \<le> length (filter (\<lambda>c. conv_id c \<noteq> k) cs) + 1"
proof -
  have "length cs = length (filter (\<lambda>c. conv_id c = k) cs)
                    + length (filter (\<lambda>c. conv_id c \<noteq> k) cs)"
    using sum_length_filter_compl [of "\<lambda>c. conv_id c = k" cs] by simp
  then show ?thesis
    using at_most_one_with_id [OF assms, of k] by simp
qed

lemma switch_opens_that_one:
  assumes "distinct (map conv_id (conversations s))" and "c \<in> set (conversations s)"
  shows "currentConversationId (switchConversation (conv_id c) s) = Some (conv_id c)
       \<and> messages (switchConversation (conv_id c) s) = conv_messages c
       \<and> sessionId (switchConversation (conv_id c) s) = conv_sessionId c"
  by (simp add: switchConversation_def find_distinct_id [OF assms])

lemma digit_char_inj: "a < 10 \<Longrightarrow> b < 10 \<Longrightarrow> digit_char a = digit_char b \<Longrightarrow> a = b"
  by (simp add: digit_char_def split: if_splits) arith

lemma digit_char_not_dash: "digit_char d \<noteq> CHR ''-''"
  by (simp add: digit_char_def)

lemma show_nat_nonempty: "show_nat n \<noteq> []"
  by (subst show_nat.simps) simp

lemma show_nat_no_dash: "CHR ''-'' \<notin> set (show_nat n)"
proof (induction n rule: show_nat.induct)
  case (1 n)
  show ?case
  proof (cases "n < 10")
    case True
    then show ?thesis
      using digit_char_not_dash [of n] by (subst show_nat.simps) auto
  next
    case False
    then show ?thesis
      using "1" digit_char_not_dash [of "n mod 10"] by (subst show_nat.simps) auto
  qed
qed

lemma show_nat_inj: "show_nat n = show_nat m \<Longrightarrow> n = m"
proof (induction n arbitrary: m rule: show_nat.induct)
  case (1 n)
  show ?case
  proof (cases "n < 10")
    case n: True
    show ?thesis
    proof (cases "m < 10")
      case True
      then have "[digit_char n] = [digit_char m]"
        using "1.prems" n by (simp add: show_nat.simps)
      then show ?thesis
        using n True digit_char_inj by simp
    next
      case False
      then have "show_nat m = show_nat (m div 10) @ [digit_char (m mod 10)]"
        by (subst show_nat.simps) simp
      then have "2 \<le> length (show_nat m)"
        using show_nat_nonempty [of "m div 10"] by (cases "show_nat (m div 10)") simp_all
      moreover have "length (show_nat n) = 1"
        using n by (subst show_nat.simps) simp
      ultimately show ?thesis
        using "1.prems" by simp
    qed
  next
    case n: False
    then have sn: "show_nat n = show_nat (n div 10) @ [digit_char (n mod 10)]"
      by (subst show_nat.simps) simp
    show ?thesis
    proof (cases "m < 10")
      case True
      have "2 \<le> length (show_nat n)"
        using sn show_nat_nonempty [of "n div 10"] by (cases "show_nat (n div 10)") simp_all
      moreover have "length (show_nat m) = 1"
        using True by (subst show_nat.simps) simp
      ultimately show ?thesis
        using "1.prems" by simp
    next
      case False
      then have sm: "show_nat m = show_nat (m div 10) @ [digit_char (m mod 10)]"
        by (subst show_nat.simps) simp
      from "1.prems" sn sm
      have eq: "show_nat (n div 10) = show_nat (m div 10)"
        and dg: "digit_char (n mod 10) = digit_char (m mod 10)"
        by simp_all
      have "n div 10 = m div 10"
        using "1.IH" [OF n eq] .
      moreover have "n mod 10 = m mod 10"
        using dg digit_char_inj [of "n mod 10" "m mod 10"] by simp
      ultimately show ?thesis
        by (metis div_mult_mod_eq)
    qed
  qed
qed

lemma split_at_dash:
  "CHR ''-'' \<notin> set xs \<Longrightarrow> CHR ''-'' \<notin> set ys \<Longrightarrow>
   xs @ CHR ''-'' # r = ys @ CHR ''-'' # r' \<Longrightarrow> xs = ys \<and> r = r'"
proof (induction xs arbitrary: ys)
  case Nil
  then show ?case by (cases ys) auto
next
  case (Cons x xs)
  then show ?case by (cases ys) auto
qed

lemma new_conv_id_inject:
  "new_conv_id n r = new_conv_id n' r' \<longleftrightarrow> n = n' \<and> r = r'"
proof
  assume "new_conv_id n r = new_conv_id n' r'"
  then have "show_nat n @ CHR ''-'' # r = show_nat n' @ CHR ''-'' # r'"
    by (simp add: new_conv_id_def)
  then have "show_nat n = show_nat n' \<and> r = r'"
    by (rule split_at_dash [OF show_nat_no_dash show_nat_no_dash])
  then show "n = n' \<and> r = r'"
    using show_nat_inj by blast
next
  assume "n = n' \<and> r = r'"
  then show "new_conv_id n r = new_conv_id n' r'" by simp
qed

lemma conversations_after_new_chats:
  "conversations (fold (\<lambda>p. startNewChat t0 (fst p) (fst (snd p)) (snd (snd p))) ps s) =
     rev (map (\<lambda>p. newConv t0 (fst p) (fst (snd p)) (snd (snd p))) ps) @ conversations s"
  by (induction ps arbitrary: s) (simp_all add: startNewChat_def)

lemma new_ids_distinct_iff:
  "distinct (map (\<lambda>p. new_conv_id (fst p) (fst (snd p))) ps)
   \<longleftrightarrow> distinct (map (\<lambda>p. (fst p, fst (snd p))) ps)"
proof -
  have inj: "inj_on (\<lambda>k. new_conv_id (fst k) (snd k)) A" for A :: "(nat \<times> string) set"
    by (rule inj_onI) (simp add: new_conv_id_inject prod_eq_iff)
  have "map (\<lambda>p. new_conv_id (fst p) (fst (snd p))) ps
        = map (\<lambda>k. new_conv_id (fst k) (snd k)) (map (\<lambda>p. (fst p, fst (snd p))) ps)"
    by simp
  then show ?thesis
    using inj by (simp only: distinct_map) simp
qed

lemma ids_after_new_chats_distinct_iff:
  "distinct (map conv_id
      (conversations (fold (\<lambda>p. startNewChat t0 (fst p) (fst (snd p)) (snd (snd p))) ps s)))
   \<longleftrightarrow> distinct (map (\<lambda>p. (fst p, fst (snd p))) ps)
       \<and> distinct (map conv_id (conversations s))
       \<and> (\<forall>p\<in>set ps. new_conv_id (fst p) (fst (snd p)) \<notin> set (map conv_id (conversations s)))"
proof -
  have ids: "map conv_id (rev (map (\<lambda>p. newConv t0 (fst p) (fst (snd p)) (snd (snd p))) ps))
             = rev (map (\<lambda>p. new_conv_id (fst p) (fst (snd p))) ps)"
    by (simp add: rev_map newConv_def comp_def)
  show ?thesis
    unfolding conversations_after_new_chats map_append ids distinct_append distinct_rev
      new_ids_distinct_iff
    by auto
qed

text \<open>
  C10, as amended. The loaded list is the stored list with only the first conversation of
  each id kept, so its ids are pairwise distinct, and looking an id up in it finds the
  first stored conversation with that id. A new conversation gets the id
  \<open>conv-\<close>, the clock reading in decimal, \<open>-\<close>, the random string, and is put in front of
  the list without comparing its id with those in the list. Two such ids are equal only
  when both the clock reading and the random string are: after any number of new chats the
  ids are pairwise distinct exactly when they were before, no two of the new chats read
  the same clock value and random string, and none of the new ids was in the list.
  In a list with pairwise distinct ids at most one conversation has a given id, so a
  switch opens the very conversation that was chosen, and an update or a deletion touches
  at most one element of the list.
\<close>

theorem loaded_ids_distinct_and_new_ids_by_clock_and_random:
  "uniqueConvs parsed = first_occurrences [] parsed
   \<and> distinct (map conv_id (uniqueConvs parsed))
   \<and> (\<forall>k. List.find (\<lambda>c. conv_id c = k) (uniqueConvs parsed)
           = List.find (\<lambda>c. conv_id c = k) parsed)
   \<and> conversations (loadConversations (Some parsed) s) = uniqueConvs parsed
   \<and> conversations (mount t0 (Some parsed) now_ms rnd now_iso)
       = newConv t0 now_ms rnd now_iso # uniqueConvs parsed
   \<and> conv_id (newConv t0 now_ms rnd now_iso) = ''conv-'' @ show_nat now_ms @ ''-'' @ rnd
   \<and> conversations (startNewChat t0 now_ms rnd now_iso s)
       = newConv t0 now_ms rnd now_iso # conversations s
   \<and> (new_conv_id n r = new_conv_id n' r') = (n = n' \<and> r = r')
   \<and> distinct (map conv_id
        (conversations (fold (\<lambda>p. startNewChat t0 (fst p) (fst (snd p)) (snd (snd p))) ps s)))
       = (distinct (map (\<lambda>p. (fst p, fst (snd p))) ps)
          \<and> distinct (map conv_id (conversations s))
          \<and> (\<forall>p\<in>set ps. new_conv_id (fst p) (fst (snd p))
                           \<notin> set (map conv_id (conversations s))))
   \<and> (distinct (map conv_id cs) \<longrightarrow> (\<forall>k. length (filter (\<lambda>c. conv_id c = k) cs) \<le> 1))
   \<and> (distinct (map conv_id (conversations s)) \<longrightarrow>
        (\<forall>c\<in>set (conversations s).
            currentConversationId (switchConversation (conv_id c) s) = Some (conv_id c)
            \<and> messages (switchConversation (conv_id c) s) = conv_messages c
            \<and> sessionId (switchConversation (conv_id c) s) = conv_sessionId c)
        \<and> length (filter (\<lambda>p. fst p \<noteq> snd p)
             (zip (conversations s) (conversations (updateCurrentConversation now_iso s)))) \<le> 1
        \<and> (\<forall>k. length (conversations s)
               \<le> length (filter (\<lambda>c. conv_id c \<noteq> k) (conversations s)) + 1))"
proof -
  have a: "uniqueConvs parsed = first_occurrences [] parsed"
    by (rule uniqueConvs_first_occurrences)
  have b: "distinct (map conv_id (uniqueConvs parsed))"
    by (simp add: a first_occurrences_distinct)
  have c: "\<forall>k. List.find (\<lambda>c. conv_id c = k) (uniqueConvs parsed)
           = List.find (\<lambda>c. conv_id c = k) parsed"
    by (simp add: a first_occurrences_find)
  have d: "conversations (loadConversations (Some parsed) s) = uniqueConvs parsed"
    by (simp add: loadConversations_def split: list.splits)
  have d': "conversations (mount t0 (Some parsed) now_ms rnd now_iso)
       = newConv t0 now_ms rnd now_iso # uniqueConvs parsed"
    by (simp add: mount_def startNewChat_def loadConversations_def initial_state_def
        split: list.splits)
  have e: "conv_id (newConv t0 now_ms rnd now_iso) = ''conv-'' @ show_nat now_ms @ ''-'' @ rnd"
    by (simp add: newConv_def new_conv_id_def)
  have e': "conversations (startNewChat t0 now_ms rnd now_iso s)
       = newConv t0 now_ms rnd now_iso # conversations s"
    by (simp add: startNewChat_def)
  have i: "(new_conv_id n r = new_conv_id n' r') = (n = n' \<and> r = r')"
    by (rule new_conv_id_inject)
  have j: "distinct (map conv_id
        (conversations (fold (\<lambda>p. startNewChat t0 (fst p) (fst (snd p)) (snd (snd p))) ps s)))
       = (distinct (map (\<lambda>p. (fst p, fst (snd p))) ps)
          \<and> distinct (map conv_id (conversations s))
          \<and> (\<forall>p\<in>set ps. new_conv_id (fst p) (fst (snd p))
                           \<notin> set (map conv_id (conversations s))))"
    by (rule ids_after_new_chats_distinct_iff)
  have f: "distinct (map conv_id cs) \<longrightarrow> (\<forall>k. length (filter (\<lambda>c. conv_id c = k) cs) \<le> 1)"
    using at_most_one_with_id [of cs] by blast
  have g: "distinct (map conv_id (conversations s)) \<longrightarrow>
        (\<forall>c\<in>set (conversations s).
            currentConversationId (switchConversation (conv_id c) s) = Some (conv_id c)
            \<and> messages (switchConversation (conv_id c) s) = conv_messages c
            \<and> sessionId (switchConversation (conv_id c) s) = conv_sessionId c)
        \<and> length (filter (\<lambda>p. fst p \<noteq> snd p)
             (zip (conversations s) (conversations (updateCurrentConversation now_iso s)))) \<le> 1
        \<and> (\<forall>k. length (conversations s)
               \<le> length (filter (\<lambda>c. conv_id c \<noteq> k) (conversations s)) + 1)"
    using switch_opens_that_one [of s] update_changes_at_most_one [of s now_iso]
      delete_removes_at_most_one [of "conversations s"]
    by blast
  show ?thesis
    using a b c d d' e e' i j f g by blast
qed

lemma conv_id_ex_conv: "conv_id (ex_conv k t) = k"
  by (simp add: ex_conv_def)

lemma ex_uniqueConvs:
  "uniqueConvs [ex_conv ''conv-a'' ''First'', ex_conv ''conv-b'' ''Second'',
                ex_conv ''conv-a'' ''Third'']
   = [ex_conv ''conv-a'' ''First'', ex_conv ''conv-b'' ''Second'']"
  by (simp add: uniqueConvs_def enumerate_eq_zip upt_rec ex_conv_def Let_def)

theorem loaded_ids_distinct_and_new_ids_by_clock_and_random_witness:
  "uniqueConvs [ex_conv ''conv-a'' ''First'', ex_conv ''conv-b'' ''Second'',
                ex_conv ''conv-a'' ''Third'']
     = [ex_conv ''conv-a'' ''First'', ex_conv ''conv-b'' ''Second'']
   \<and> distinct (map conv_id [ex_conv ''conv-a'' ''First'', ex_conv ''conv-b'' ''Second''])
   \<and> distinct (map conv_id (conversations
        (fold (\<lambda>p. startNewChat ex_t0 (fst p) (fst (snd p)) (snd (snd p)))
           [(1760950800000, ''k3x9q2m1z'', ex_now), (1760950800001, ''k3x9q2m1z'', ex_now)]
           (initial_state ex_t0))))
   \<and> length (filter (\<lambda>c. conv_id c = ''conv-a'')
        [ex_conv ''conv-a'' ''First'', ex_conv ''conv-b'' ''Second'']) \<le> 1
   \<and> conv_id (newConv ex_t0 1760950800000 ''k3x9q2m1z'' ex_now)
     = ''conv-1760950800000-k3x9q2m1z''"
proof -
  note th = loaded_ids_distinct_and_new_ids_by_clock_and_random
    [of "[ex_conv ''conv-a'' ''First'', ex_conv ''conv-b'' ''Second'',
          ex_conv ''conv-a'' ''Third'']"
        "initial_state ex_t0" ex_t0 1760950800000 "''k3x9q2m1z''" ex_now
        1760950800000 "''k3x9q2m1z''" 1760950800001 "''k3x9q2m1z''"
        "[(1760950800000, ''k3x9q2m1z'', ex_now), (1760950800001, ''k3x9q2m1z'', ex_now)]"
        "[ex_conv ''conv-a'' ''First'', ex_conv ''conv-b'' ''Second'']"]
  have d: "distinct (map conv_id [ex_conv ''conv-a'' ''First'', ex_conv ''conv-b'' ''Second''])"
    by (simp add: conv_id_ex_conv)
  from th d have l: "length (filter (\<lambda>c. conv_id c = ''conv-a'')
        [ex_conv ''conv-a'' ''First'', ex_conv ''conv-b'' ''Second'']) \<le> 1"
    by blast
  from th have "distinct (map conv_id (conversations
        (fold (\<lambda>p. startNewChat ex_t0 (fst p) (fst (snd p)) (snd (snd p)))
           [(1760950800000, ''k3x9q2m1z'', ex_now), (1760950800001, ''k3x9q2m1z'', ex_now)]
           (initial_state ex_t0))))
       = (distinct (map (\<lambda>p. (fst p, fst (snd p)))
             [(1760950800000::nat, ''k3x9q2m1z'', ex_now), (1760950800001, ''k3x9q2m1z'', ex_now)])
          \<and> distinct (map conv_id (conversations (initial_state ex_t0)))
          \<and> (\<forall>p\<in>set [(1760950800000::nat, ''k3x9q2m1z'', ex_now),
                        (1760950800001, ''k3x9q2m1z'', ex_now)].
                 new_conv_id (fst p) (fst (snd p))
                   \<notin> set (map conv_id (conversations (initial_state ex_t0)))))"
    by blast
  then have n: "distinct (map conv_id (conversations
        (fold (\<lambda>p. startNewChat ex_t0 (fst p) (fst (snd p)) (snd (snd p)))
           [(1760950800000, ''k3x9q2m1z'', ex_now), (1760950800001, ''k3x9q2m1z'', ex_now)]
           (initial_state ex_t0))))"
    by (simp add: initial_state_def)
  have "show_nat 1760950800000 = ''1760950800000''"
    by (simp add: show_nat.simps digit_char_def)
  with th have f: "conv_id (newConv ex_t0 1760950800000 ''k3x9q2m1z'' ex_now)
     = ''conv-1760950800000-k3x9q2m1z''"
    by simp
  show ?thesis
    using ex_uniqueConvs d n l f by blast
qed

text \<open>
  The claim C10 as it was stated fails where the clock and the random generator repeat:
  two new chats then carry the same id, and that id addresses two conversations. The
  same happens when the stored list already holds the id that the new chat of the mount
  is given.
\<close>

theorem new_chat_id_can_repeat:
  "\<not> distinct (map conv_id (conversations
        (startNewChat ex_t0 1760950800000 ''k3x9q2m1z'' ex_now
          (startNewChat ex_t0 1760950800000 ''k3x9q2m1z'' ex_now (initial_state ex_t0)))))
   \<and> count_list (map conv_id (conversations
        (startNewChat ex_t0 1760950800000 ''k3x9q2m1z'' ex_now
          (startNewChat ex_t0 1760950800000 ''k3x9q2m1z'' ex_now (initial_state ex_t0)))))
        (new_conv_id 1760950800000 ''k3x9q2m1z'')
     = 2
   \<and> count_list (map conv_id (conversations
        (mount ex_t0 (Some [ex_conv (new_conv_id 1760950800000 ''k3x9q2m1z'') ''Stored''])
           1760950800000 ''k3x9q2m1z'' ex_now)))
        (new_conv_id 1760950800000 ''k3x9q2m1z'')
     = 2"
  by (simp add: startNewChat_def newConv_def initial_state_def mount_def loadConversations_def
      uniqueConvs_def enumerate_eq_zip upt_rec ex_conv_def)

section \<open>Citations of a grounded answer\<close>

lemma markers_in_filter:
  "markers_in (strip_dangling evidence segs) = filter (has_marker evidence) (markers_in segs)"
proof (induction segs)
  case Nil
  show ?case by (simp add: strip_dangling_def)
next
  case (Cons seg segs)
  then show ?case
    by (cases seg) (simp_all add: strip_dangling_def)
qed

text \<open>
  C1. In a GroundedAnswer that \<open>generate\<close> returns for an EvidenceSet, every citation
  marker in the text is a marker of that EvidenceSet: the markers of the text are those
  of the returned text that the EvidenceSet has, in their order. The citations listed are
  the markers of the text, and every source identifier listed is a document of the
  EvidenceSet.
\<close>

theorem no_dangling_citations:
  assumes "generate evidence returned = Inr ans"
  shows "(\<forall>m\<in>set (markers_in (answer_text ans)). has_marker evidence m)
       \<and> (\<exists>raw. returned = Some raw
              \<and> markers_in (answer_text ans) = filter (has_marker evidence) (markers_in raw))
       \<and> set (citations ans) = set (markers_in (answer_text ans))
       \<and> set (answer_sources ans) \<subseteq> set evidence"
proof -
  from assms obtain raw where raw: "returned = Some raw"
    by (cases returned) (simp_all add: generate_def)
  have ans: "ans = \<lparr>answer_text = strip_dangling evidence raw,
                   citations = remdups (markers_in (strip_dangling evidence raw)),
                   answer_sources = map (\<lambda>m. evidence ! (m - 1))
                                      (remdups (markers_in (strip_dangling evidence raw)))\<rparr>"
    using assms by (simp add: generate_def raw Let_def)
  have m: "markers_in (answer_text ans) = filter (has_marker evidence) (markers_in raw)"
    by (simp add: ans markers_in_filter)
  have a: "\<forall>m\<in>set (markers_in (answer_text ans)). has_marker evidence m"
    by (simp add: m)
  have c: "set (citations ans) = set (markers_in (answer_text ans))"
    by (simp add: ans)
  have d: "set (answer_sources ans) \<subseteq> set evidence"
  proof
    fix x assume "x \<in> set (answer_sources ans)"
    then obtain k where k: "k \<in> set (markers_in (answer_text ans))" and x: "x = evidence ! (k - 1)"
      by (auto simp: ans)
    from k a have "has_marker evidence k" by blast
    then have "k - 1 < length evidence"
      by (auto simp: has_marker_def)
    then show "x \<in> set evidence"
      by (simp add: x)
  qed
  show ?thesis
    using a raw m c d by blast
qed

theorem no_dangling_citations_witness:
  "generate [''doc-7'', ''doc-9'']
      (Some [Plain ''Two incidents are open '', Cite 1, Plain '' and one is closed '', Cite 5])
     = Inr \<lparr>answer_text = [Plain ''Two incidents are open '', Cite 1,
                            Plain '' and one is closed ''],
            citations = [1], answer_sources = [''doc-7'']\<rparr>
   \<and> has_marker [''doc-7'', ''doc-9''] 1 \<and> \<not> has_marker [''doc-7'', ''doc-9''] 5"
proof -
  have g: "generate [''doc-7'', ''doc-9'']
      (Some [Plain ''Two incidents are open '', Cite 1, Plain '' and one is closed '', Cite 5])
     = Inr \<lparr>answer_text = [Plain ''Two incidents are open '', Cite 1,
                            Plain '' and one is closed ''],
            citations = [1], answer_sources = [''doc-7'']\<rparr>"
    by (simp add: generate_def strip_dangling_def has_marker_def Let_def)
  from no_dangling_citations [OF g] have "has_marker [''doc-7'', ''doc-9''] 1"
    by simp
  moreover have "\<not> has_marker [''doc-7'', ''doc-9''] 5"
    by (simp add: has_marker_def)
  ultimately show ?thesis using g by blast
qed

end
